theory Spec2Isabelle
  imports Complex_Main
begin

section \<open>Python values used by asr\_evaluation.py\<close>

text \<open>
  The exceptions the script can raise. \<open>AssertionError\<close> comes from its \<open>assert\<close>
  statements, \<open>IndexError\<close> from list subscripts, \<open>ZeroDivisionError\<close> from \<open>/\<close>
  (true division, the script imports \<open>division\<close> from \<open>__future__\<close>), and
  \<open>TypeError\<close> from \<open>len(False)\<close>.
\<close>

datatype error = AssertionError | IndexError | ZeroDivisionError | TypeError

text \<open>\<open>xs[i]\<close>: a negative index counts from the end, anything outside raises.\<close>

definition py_index :: "'a list \<Rightarrow> int \<Rightarrow> error + 'a" where
  "py_index xs i =
     (if 0 \<le> i \<and> i < int (length xs) then Inr (xs ! nat i)
      else if - int (length xs) \<le> i \<and> i < 0 then Inr (xs ! nat (i + int (length xs)))
      else Inl IndexError)"

text \<open>\<open>xs[i:j]\<close>: both bounds are moved into \<open>0 .. len(xs)\<close>, nothing raises.\<close>

definition py_bound :: "'a list \<Rightarrow> int \<Rightarrow> int" where
  "py_bound xs i =
     (if i < 0 then max (i + int (length xs)) 0 else min i (int (length xs)))"

definition py_slice :: "'a list \<Rightarrow> int \<Rightarrow> int \<Rightarrow> 'a list" where
  "py_slice xs i j =
     take (nat (py_bound xs j - py_bound xs i)) (drop (nat (py_bound xs i)) xs)"

text \<open>\<open>range(i, j)\<close> is the list \<open>i, i + 1, ..., j - 1\<close>, empty when \<open>j \<le> i\<close>.\<close>

definition py_range :: "int \<Rightarrow> int \<Rightarrow> int list" where
  "py_range i j = [i .. j - 1]"

text \<open>\<open>reduce(f, xs, init)\<close> folds from the left.\<close>

definition reduce :: "('b \<Rightarrow> 'a \<Rightarrow> 'b) \<Rightarrow> 'a list \<Rightarrow> 'b \<Rightarrow> 'b" where
  "reduce f xs init = foldl f init xs"

text \<open>
  \<open>a / b\<close> on two integers under true division. Python returns the float nearest to
  the quotient; the model keeps the exact quotient as a rational.
\<close>

definition true_div :: "int \<Rightarrow> int \<Rightarrow> error + rat" where
  "true_div a b = (if b = 0 then Inl ZeroDivisionError else Inr (of_int a / of_int b))"

section \<open>The sequence matcher\<close>

text \<open>
  An opcode is the tuple \<open>(tag, i1, i2, j1, j2)\<close>. The script imports the class
  \<open>SequenceMatcher\<close> from the module \<open>editdistance\<close> and reads three things of a
  matcher object: \<open>get_opcodes()\<close>, \<open>matches()\<close> and \<open>get_matching_blocks()\<close>, whose
  entries are \<open>(i, j, n)\<close>.
\<close>

type_synonym opcode = "string \<times> int \<times> int \<times> int \<times> int"

record seqmatcher =
  get_opcodes :: "opcode list"
  matches :: int
  get_matching_blocks :: "(int \<times> int \<times> int) list"

section \<open>Counting errors and matches\<close>

definition error_codes :: "string list" where
  "error_codes = [''replace'', ''delete'', ''insert'']"

definition get_error_count :: "seqmatcher \<Rightarrow> int" where
  "get_error_count sm =
     (let opcodes = get_opcodes sm;
          errors = filter (\<lambda>x. fst x \<in> set error_codes) opcodes;
          error_lengths = map (\<lambda>(tag, i1, i2, j1, j2). max (i2 - i1) (j2 - j1)) errors
      in reduce (\<lambda>x y. x + y) error_lengths 0)"

definition get_match_count :: "seqmatcher \<Rightarrow> error + int" where
  "get_match_count sm =
     (let matches1 = matches sm;
          matching_blocks = get_matching_blocks sm;
          matches2 = reduce (\<lambda>x y. x + y) (map (\<lambda>(i, j, n). n) matching_blocks) 0
      in if matches1 = matches2 then Inr matches1 else Inl AssertionError)"


section \<open>Strings\<close>

text \<open>
  The script is Python 2, so a token is a byte string. \<open>upper\<close> and \<open>lower\<close> change
  the ASCII letters and nothing else; \<open>split()\<close> cuts a line at runs of whitespace and
  never returns an empty token.
\<close>

definition ascii_lowercase :: string where
  "ascii_lowercase = ''abcdefghijklmnopqrstuvwxyz''"

definition ascii_uppercase :: string where
  "ascii_uppercase = ''ABCDEFGHIJKLMNOPQRSTUVWXYZ''"

definition upper_char :: "char \<Rightarrow> char" where
  "upper_char c =
     (case map_of (zip ascii_lowercase ascii_uppercase) c of None \<Rightarrow> c | Some d \<Rightarrow> d)"

definition lower_char :: "char \<Rightarrow> char" where
  "lower_char c =
     (case map_of (zip ascii_uppercase ascii_lowercase) c of None \<Rightarrow> c | Some d \<Rightarrow> d)"

definition upper :: "string \<Rightarrow> string" where
  "upper s = map upper_char s"

definition lower :: "string \<Rightarrow> string" where
  "lower s = map lower_char s"

definition isspace :: "char \<Rightarrow> bool" where
  "isspace c = (c \<in> set [CHR 0x09, CHR 0x0A, CHR 0x0B, CHR 0x0C, CHR 0x0D, CHR '' ''])"

fun split_from :: "string \<Rightarrow> string \<Rightarrow> string list" where
  "split_from cur [] = (if cur = [] then [] else [cur])"
| "split_from cur (c # cs) =
     (if isspace c then (if cur = [] then split_from [] cs else cur # split_from [] cs)
      else split_from (cur @ [c]) cs)"

definition split :: "string \<Rightarrow> string list" where
  "split line = split_from [] line"

text \<open>\<open>sep.join(xs)\<close>.\<close>

fun join :: "string \<Rightarrow> string list \<Rightarrow> string" where
  "join sep [] = []"
| "join sep [x] = x"
| "join sep (x # y # ys) = x @ sep @ join sep (y # ys)"

text \<open>
  Splitting a rendered line on single spaces, \<open>line.split(' ')\<close>: every space ends a
  piece, so two spaces in a row or a space at the end give an empty piece.
\<close>

fun split_on_space_from :: "string \<Rightarrow> string \<Rightarrow> string list" where
  "split_on_space_from cur [] = [cur]"
| "split_on_space_from cur (c # cs) =
     (if c = CHR '' '' then cur # split_on_space_from [] cs
      else split_on_space_from (cur @ [c]) cs)"

definition split_on_space :: "string \<Rightarrow> string list" where
  "split_on_space line = split_on_space_from [] line"

section \<open>The diff of one pair\<close>

text \<open>
  A loop \<open>for i in range(..): tokens.append(f(i))\<close> whose body can raise: the tokens
  it appends, or the first error.
\<close>

fun map_err :: "('a \<Rightarrow> error + 'b) \<Rightarrow> 'a list \<Rightarrow> error + 'b list" where
  "map_err f [] = Inr []"
| "map_err f (x # xs) =
     (case f x of
        Inl e \<Rightarrow> Inl e
      | Inr y \<Rightarrow> (case map_err f xs of Inl e \<Rightarrow> Inl e | Inr ys \<Rightarrow> Inr (y # ys)))"

definition token_at :: "(string \<Rightarrow> string) \<Rightarrow> string list \<Rightarrow> int \<Rightarrow> error + string" where
  "token_at f seq i = (case py_index seq i of Inl e \<Rightarrow> Inl e | Inr w \<Rightarrow> Inr (f w))"

definition stars :: "string \<Rightarrow> string" where
  "stars w = replicate (length w) CHR ''*''"

text \<open>
  One slot of a replace run, lines 201 to 213. An entry of \<open>s1\<close> or \<open>s2\<close> is a token or
  \<open>False\<close>, here \<open>None\<close>. Two tokens are padded to the same width when both are
  non-empty (an empty string is false in \<open>if w1 and w2\<close>); a \<open>False\<close> entry becomes
  asterisks of the other entry's width, and \<open>len(False)\<close> raises.
\<close>

definition fix_slot :: "string option \<Rightarrow> string option \<Rightarrow> error + string \<times> string" where
  "fix_slot w1 w2 =
     (case (w1, w2) of
        (Some a, Some b) \<Rightarrow>
          if a \<noteq> [] \<and> b \<noteq> [] then
            (if length a > length b then Inr (a, b @ replicate (length a - length b) CHR '' '')
             else if length a < length b then Inr (a @ replicate (length b - length a) CHR '' '', b)
             else Inr (a, b))
          else Inr (a, b)
      | (None, Some b) \<Rightarrow> Inr (stars b, b)
      | (Some a, None) \<Rightarrow> Inr (a, stars a)
      | (None, None) \<Rightarrow> Inl TypeError)"

text \<open>The tokens one opcode adds to \<open>ref_tokens\<close> and to \<open>hyp_tokens\<close>.\<close>

definition diff_opcode ::
  "string list \<Rightarrow> string list \<Rightarrow> opcode \<Rightarrow> error + string list \<times> string list" where
  "diff_opcode seq1 seq2 = (\<lambda>(tag, i1, i2, j1, j2).
     if tag = ''equal'' then
       (case map_err (token_at lower seq1) (py_range i1 i2) of
          Inl e \<Rightarrow> Inl e
        | Inr r \<Rightarrow>
            (case map_err (token_at lower seq2) (py_range j1 j2) of
               Inl e \<Rightarrow> Inl e
             | Inr h \<Rightarrow> Inr (r, h)))
     else if tag = ''delete'' then
       (case map_err (token_at upper seq1) (py_range i1 i2) of
          Inl e \<Rightarrow> Inl e
        | Inr r \<Rightarrow>
            (case map_err (token_at stars seq1) (py_range i1 i2) of
               Inl e \<Rightarrow> Inl e
             | Inr h \<Rightarrow> Inr (r, h)))
     else if tag = ''insert'' then
       (case map_err (token_at stars seq2) (py_range j1 j2) of
          Inl e \<Rightarrow> Inl e
        | Inr r \<Rightarrow>
            (case map_err (token_at upper seq2) (py_range j1 j2) of
               Inl e \<Rightarrow> Inl e
             | Inr h \<Rightarrow> Inr (r, h)))
     else if tag = ''replace'' then
       (let seq1_len = i2 - i1;
            seq2_len = j2 - j1;
            s1 = map (\<lambda>w. Some (upper w)) (py_slice seq1 i1 i2);
            s2 = map (\<lambda>w. Some (upper w)) (py_slice seq2 j1 j2);
            s2 = (if seq1_len > seq2_len
                  then s2 @ replicate (length (py_range 0 (seq1_len - seq2_len))) None else s2);
            s1 = (if seq1_len < seq2_len
                  then s1 @ replicate (length (py_range 0 (seq2_len - seq1_len))) None else s1)
        in if length s1 \<noteq> length s2 then Inl AssertionError
           else (case map_err (\<lambda>(w1, w2). fix_slot w1 w2) (zip s1 s2) of
                   Inl e \<Rightarrow> Inl e
                 | Inr slots \<Rightarrow> Inr (map fst slots, map snd slots)))
     else Inr ([], []))"

fun diff_tokens ::
  "opcode list \<Rightarrow> string list \<Rightarrow> string list \<Rightarrow> string list \<times> string list \<Rightarrow>
   error + string list \<times> string list" where
  "diff_tokens [] seq1 seq2 toks = Inr toks"
| "diff_tokens (opc # opcodes) seq1 seq2 (ref_tokens, hyp_tokens) =
     (case diff_opcode seq1 seq2 opc of
        Inl e \<Rightarrow> Inl e
      | Inr (r, h) \<Rightarrow> diff_tokens opcodes seq1 seq2 (ref_tokens @ r, hyp_tokens @ h))"

text \<open>\<open>print_diff\<close> returns the three lines it prints.\<close>

definition print_diff :: "seqmatcher \<Rightarrow> string list \<Rightarrow> string list \<Rightarrow> error + string list" where
  "print_diff sm seq1 seq2 =
     (case diff_tokens (get_opcodes sm) seq1 seq2 ([], []) of
        Inl e \<Rightarrow> Inl e
      | Inr (ref_tokens, hyp_tokens) \<Rightarrow>
          Inr [replicate 60 CHR ''='',
               ''REF: '' @ join '' '' ref_tokens,
               ''HYP: '' @ join '' '' hyp_tokens])"

section \<open>The state of a run\<close>

text \<open>
  The module's global variables, and \<open>counter\<close>, the local variable of \<open>main\<close> that
  numbers the pairs. A \<open>defaultdict(int)\<close> is a map read with the default 0. Floats are
  kept as exact rationals.
\<close>

record state =
  ref_token_count :: int
  error_count :: int
  match_count :: int
  lengths :: "int list"
  error_rates :: "rat list"
  wer_bins :: "rat list list"
  insertion_table :: "string \<rightharpoonup> int"
  deletion_table :: "string \<rightharpoonup> int"
  substitution_table :: "string \<times> string \<rightharpoonup> int"
  counter :: int

definition initial_state :: state where
  "initial_state =
     \<lparr>ref_token_count = 0, error_count = 0, match_count = 0,
      lengths = [], error_rates = [], wer_bins = replicate 20 [],
      insertion_table = Map.empty, deletion_table = Map.empty,
      substitution_table = Map.empty, counter = 1\<rparr>"

definition dd_get :: "('k \<rightharpoonup> int) \<Rightarrow> 'k \<Rightarrow> int" where
  "dd_get t k = (case t k of None \<Rightarrow> 0 | Some v \<Rightarrow> v)"

definition dd_incr :: "('k \<rightharpoonup> int) \<Rightarrow> 'k \<Rightarrow> ('k \<rightharpoonup> int)" where
  "dd_incr t k = t(k \<mapsto> dd_get t k + 1)"

text \<open>The command line options the loop reads.\<close>

record config =
  print_instances :: bool
  files_have_ids :: bool
  confusions :: bool

text \<open>
  A statement runs in a state and ends with a value or with an exception; either way
  the globals keep what was written to them up to that point.
\<close>

type_synonym 'a prog = "state \<Rightarrow> (error + 'a) \<times> state"

definition ret :: "'a \<Rightarrow> 'a prog" where
  "ret x = (\<lambda>s. (Inr x, s))"

definition lift :: "error + 'a \<Rightarrow> 'a prog" where
  "lift r = (\<lambda>s. (r, s))"

definition modify :: "(state \<Rightarrow> state) \<Rightarrow> unit prog" where
  "modify f = (\<lambda>s. (Inr (), f s))"

definition gets :: "(state \<Rightarrow> 'a) \<Rightarrow> 'a prog" where
  "gets f = (\<lambda>s. (Inr (f s), s))"

definition and_then :: "'a prog \<Rightarrow> ('a \<Rightarrow> 'b prog) \<Rightarrow> 'b prog" where
  "and_then m f = (\<lambda>s. case m s of (Inl e, s') \<Rightarrow> (Inl e, s') | (Inr x, s') \<Rightarrow> f x s')"

definition when_true :: "bool \<Rightarrow> unit prog \<Rightarrow> unit prog" where
  "when_true b m = (if b then m else ret ())"

fun for_each :: "'a list \<Rightarrow> ('a \<Rightarrow> unit prog) \<Rightarrow> unit prog" where
  "for_each [] body s = (Inr (), s)"
| "for_each (x # xs) body s =
     (case body x s of (Inl e, s') \<Rightarrow> (Inl e, s') | (Inr u, s') \<Rightarrow> for_each xs body s')"

section \<open>Confusion tables\<close>

definition track_opcode :: "string list \<Rightarrow> string list \<Rightarrow> opcode \<Rightarrow> unit prog" where
  "track_opcode seq1 seq2 = (\<lambda>(tag, i1, i2, j1, j2).
     if tag = ''insert'' then
       for_each (py_range j1 j2) (\<lambda>i.
         and_then (lift (py_index seq2 i)) (\<lambda>word.
           modify (\<lambda>s. s\<lparr>insertion_table := dd_incr (insertion_table s) word\<rparr>)))
     else if tag = ''delete'' then
       for_each (py_range i1 i2) (\<lambda>i.
         and_then (lift (py_index seq1 i)) (\<lambda>word.
           modify (\<lambda>s. s\<lparr>deletion_table := dd_incr (deletion_table s) word\<rparr>)))
     else if tag = ''replace'' then
       for_each (py_slice seq1 i1 i2) (\<lambda>w1.
         for_each (py_slice seq2 j1 j2) (\<lambda>w2.
           modify (\<lambda>s. s\<lparr>substitution_table := dd_incr (substitution_table s) (w1, w2)\<rparr>)))
     else ret ())"

definition track_confusions :: "seqmatcher \<Rightarrow> string list \<Rightarrow> string list \<Rightarrow> unit prog" where
  "track_confusions sm seq1 seq2 = for_each (get_opcodes sm) (track_opcode seq1 seq2)"

section \<open>The main loop\<close>

text \<open>
  Lines 65 to 73: with \<open>--has-ids\<close> the last token of each line is its identifier; the
  two must be equal and are then removed. The result is \<open>(id, ref, hyp)\<close>.
\<close>

definition split_off_ids ::
  "bool \<Rightarrow> string list \<Rightarrow> string list \<Rightarrow> error + string option \<times> string list \<times> string list" where
  "split_off_ids has_ids ref hyp =
     (if has_ids then
        (case py_index ref (- 1) of
           Inl e \<Rightarrow> Inl e
         | Inr ref_id \<Rightarrow>
             (case py_index hyp (- 1) of
                Inl e \<Rightarrow> Inl e
              | Inr hyp_id \<Rightarrow>
                  if ref_id = hyp_id
                  then Inr (Some ref_id, py_slice ref 0 (- 1), py_slice hyp 0 (- 1))
                  else Inl AssertionError))
      else Inr (None, ref, hyp))"

text \<open>
  The body of the loop, lines 63 to 102, for one pair of lines. The class
  \<open>SequenceMatcher\<close> is a parameter. Printing is left out, except that the values
  printed are computed: \<open>print_diff\<close> and the two percentages of lines 95 and 96 can
  raise.
\<close>

definition process_pair ::
  "config \<Rightarrow> (string list \<Rightarrow> string list \<Rightarrow> seqmatcher) \<Rightarrow> string \<times> string \<Rightarrow> unit prog" where
  "process_pair cfg SequenceMatcher = (\<lambda>(ref_line, hyp_line).
     and_then (lift (split_off_ids (files_have_ids cfg) (split ref_line) (split hyp_line)))
       (\<lambda>(ident, ref, hyp).
     let sm = SequenceMatcher ref hyp;
         errors = get_error_count sm in
     and_then (lift (get_match_count sm)) (\<lambda>matches.
     let ref_length = int (length ref) in
     and_then (modify (\<lambda>s. s\<lparr>error_count := error_count s + errors\<rparr>)) (\<lambda>_.
     and_then (modify (\<lambda>s. s\<lparr>match_count := match_count s + matches\<rparr>)) (\<lambda>_.
     and_then (modify (\<lambda>s. s\<lparr>ref_token_count := ref_token_count s + ref_length\<rparr>)) (\<lambda>_.
     and_then (when_true (confusions cfg) (track_confusions sm ref hyp)) (\<lambda>_.
     and_then (when_true (print_instances cfg)
       (and_then (lift (print_diff sm ref hyp)) (\<lambda>_.
        and_then (lift (true_div (100 * matches) ref_length)) (\<lambda>_.
        and_then (lift (true_div (100 * errors) ref_length)) (\<lambda>_. ret ()))))) (\<lambda>_.
     and_then (modify (\<lambda>s. s\<lparr>lengths := lengths s @ [ref_length]\<rparr>)) (\<lambda>_.
     and_then (lift (true_div errors (int (length ref)))) (\<lambda>rate.
     and_then (modify (\<lambda>s. s\<lparr>error_rates := error_rates s @ [rate]\<rparr>)) (\<lambda>_.
     and_then (gets wer_bins) (\<lambda>bins.
     and_then (lift (py_index bins (int (length ref)))) (\<lambda>bin.
     and_then (lift (true_div errors (int (length ref)))) (\<lambda>rate.
     and_then (modify (\<lambda>s. s\<lparr>wer_bins := (wer_bins s)[length ref := bin @ [rate]]\<rparr>)) (\<lambda>_.
     modify (\<lambda>s. s\<lparr>counter := counter s + 1\<rparr>))))))))))))))))"

text \<open>\<open>izip\<close> pairs the lines of the two files and stops with the shorter one.\<close>

definition main_loop ::
  "config \<Rightarrow> (string list \<Rightarrow> string list \<Rightarrow> seqmatcher) \<Rightarrow> string list \<Rightarrow> string list \<Rightarrow> unit prog" where
  "main_loop cfg SequenceMatcher ref_file hyp_file =
     for_each (zip ref_file hyp_file) (process_pair cfg SequenceMatcher)"

text \<open>
  The numbers of the last two lines \<open>main\<close> prints. \<open>print_confusions\<close> and
  \<open>print_wer_vs_length\<close>, which run between the loop and these lines, only print and
  do not raise.
\<close>

record report =
  WRR :: rat
  WER :: rat

definition main ::
  "config \<Rightarrow> (string list \<Rightarrow> string list \<Rightarrow> seqmatcher) \<Rightarrow> string list \<Rightarrow> string list \<Rightarrow> report prog" where
  "main cfg SequenceMatcher ref_file hyp_file =
     and_then (main_loop cfg SequenceMatcher ref_file hyp_file) (\<lambda>_.
     and_then (gets (\<lambda>s. (match_count s, error_count s, ref_token_count s)))
       (\<lambda>(matches, errors, tokens).
     and_then (lift (true_div (100 * matches) tokens)) (\<lambda>wrr.
     and_then (lift (true_div (100 * errors) tokens)) (\<lambda>wer.
     ret \<lparr>WRR = wrr, WER = wer\<rparr>))))"

section \<open>What the script expects of a matcher\<close>

text \<open>
  Modelled from the spec: the module \<open>editdistance\<close> is not among the sources, so the
  opcodes of a matcher are described by the invariant of the specification's data model.
  The spans of an opcode lie inside the two sequences, and the tokens of an equal span
  are pairwise equal (so the two spans have the same length).
\<close>

definition valid_opcode :: "string list \<Rightarrow> string list \<Rightarrow> opcode \<Rightarrow> bool" where
  "valid_opcode seq1 seq2 = (\<lambda>(tag, i1, i2, j1, j2).
     0 \<le> i1 \<and> i1 \<le> i2 \<and> i2 \<le> int (length seq1) \<and>
     0 \<le> j1 \<and> j1 \<le> j2 \<and> j2 \<le> int (length seq2) \<and>
     (tag = ''equal'' \<longrightarrow> py_slice seq1 i1 i2 = py_slice seq2 j1 j2))"

text \<open>
  Modelled from the spec: \<open>matches()\<close> of the absent module. The match count is the
  sum of \<open>i2 - i1\<close> over the equal opcodes.
\<close>

definition spec_matches :: "opcode list \<Rightarrow> int" where
  "spec_matches opcodes =
     (\<Sum>(tag, i1, i2, j1, j2) \<leftarrow> filter (\<lambda>x. fst x = ''equal'') opcodes. i2 - i1)"

text \<open>
  Modelled from the spec: \<open>get_matching_blocks()\<close> of the absent module. The table of
  contiguous matching regions has one entry \<open>(i, j, n)\<close> for each equal opcode: where
  the region starts in the reference, where it starts in the hypothesis, and the span
  length.
\<close>

definition spec_matching_blocks :: "opcode list \<Rightarrow> (int \<times> int \<times> int) list" where
  "spec_matching_blocks opcodes =
     map (\<lambda>(tag, i1, i2, j1, j2). (i1, j1, i2 - i1)) (filter (\<lambda>x. fst x = ''equal'') opcodes)"

text \<open>
  Modelled from the spec: the constructor \<open>SequenceMatcher(a, b)\<close> of the absent
  module. The alignment algorithm is the parameter \<open>align\<close>; the two counts are read
  off the opcodes it returns.
\<close>

definition spec_SequenceMatcher ::
  "(string list \<Rightarrow> string list \<Rightarrow> opcode list) \<Rightarrow> string list \<Rightarrow> string list \<Rightarrow> seqmatcher" where
  "spec_SequenceMatcher align a b =
     \<lparr>get_opcodes = align a b, matches = spec_matches (align a b),
      get_matching_blocks = spec_matching_blocks (align a b)\<rparr>"

section \<open>Notions used to state the properties of a run\<close>

text \<open>The globals that \<open>track_confusions\<close> does not write.\<close>

definition untracked ::
  "state \<Rightarrow> int \<times> int \<times> int \<times> int list \<times> rat list \<times> rat list list \<times> int" where
  "untracked s =
     (ref_token_count s, error_count s, match_count s, lengths s, error_rates s,
      wer_bins s, counter s)"

text \<open>
  The tokens of a line that reach the matcher (lines 63 to 73): all of them, or all
  but the last with \<open>--has-ids\<close>; and the matcher the loop builds for a pair of lines.
\<close>

definition tokens_of :: "config \<Rightarrow> string \<Rightarrow> string list" where
  "tokens_of cfg line =
     (if files_have_ids cfg then py_slice (split line) 0 (- 1) else split line)"

definition pair_matcher ::
  "config \<Rightarrow> (string list \<Rightarrow> string list \<Rightarrow> seqmatcher) \<Rightarrow> string \<times> string \<Rightarrow> seqmatcher" where
  "pair_matcher cfg SequenceMatcher =
     (\<lambda>(ref_line, hyp_line). SequenceMatcher (tokens_of cfg ref_line) (tokens_of cfg hyp_line))"

section \<open>Error count\<close>

lemma reduce_plus: "reduce (\<lambda>x y. x + y) xs (a::int) = a + sum_list xs"
  unfolding reduce_def by (induction xs arbitrary: a) simp_all

text \<open>
  Claim C1. The error count of a matcher is the sum, over its opcodes tagged insert,
  delete or replace, of the larger of the two span lengths; opcodes with any other tag
  add nothing. A replace opcode of 2 reference tokens against 3 hypothesis tokens
  counts 3.
\<close>

theorem get_error_count_max_span:
  "get_error_count sm =
     (\<Sum>(tag, i1, i2, j1, j2) \<leftarrow> get_opcodes sm.
        if tag \<in> {''insert'', ''delete'', ''replace''} then max (i2 - i1) (j2 - j1) else 0)
   \<and> get_error_count \<lparr>get_opcodes = [(''replace'', 0, 2, 0, 3)], matches = m,
        get_matching_blocks = bs\<rparr> = 3"
proof
  have "sum_list (map (\<lambda>(tag, i1, i2, j1, j2). max (i2 - i1) (j2 - j1))
          (filter (\<lambda>x. fst x \<in> set error_codes) ops)) =
        (\<Sum>(tag, i1, i2, j1, j2) \<leftarrow> ops.
           if tag \<in> {''insert'', ''delete'', ''replace''} then max (i2 - i1) (j2 - j1) else 0)"
    for ops :: "opcode list"
    by (induction ops) (auto simp: error_codes_def)
  then show "get_error_count sm =
     (\<Sum>(tag, i1, i2, j1, j2) \<leftarrow> get_opcodes sm.
        if tag \<in> {''insert'', ''delete'', ''replace''} then max (i2 - i1) (j2 - j1) else 0)"
    by (simp add: get_error_count_def reduce_plus)
next
  show "get_error_count \<lparr>get_opcodes = [(''replace'', 0, 2, 0, 3)], matches = m,
        get_matching_blocks = bs\<rparr> = 3"
    by (simp add: get_error_count_def reduce_def error_codes_def)
qed

section \<open>Loops\<close>

lemma for_each_append:
  "for_each (xs @ ys) body s =
     (case for_each xs body s of (Inl e, s') \<Rightarrow> (Inl e, s') | (Inr u, s') \<Rightarrow> for_each ys body s')"
  by (induction xs arbitrary: s) (auto split: prod.splits sum.splits)

section \<open>Substitution tallies\<close>

lemma dd_get_foldl_incr:
  "dd_get (foldl dd_incr t ks) k = dd_get t k + int (count_list ks k)"
  by (induction ks arbitrary: t) (auto simp: dd_incr_def dd_get_def)

lemma count_list_map_Pair:
  "count_list (map (Pair a) ys) (w1, w2) = (if a = w1 then count_list ys w2 else 0)"
  by (induction ys) auto

lemma count_list_app: "count_list (xs @ ys) k = count_list xs k + count_list ys k"
  by (induction xs) auto

lemma count_list_product:
  "count_list (List.product xs ys) (w1, w2) = count_list xs w1 * count_list ys w2"
  by (induction xs) (auto simp: count_list_app count_list_map_Pair)

lemma inner_replace_loop:
  "for_each ys (\<lambda>w2. modify (\<lambda>s.
       s\<lparr>substitution_table := dd_incr (substitution_table s) (w1, w2)\<rparr>)) s =
     (Inr (), s\<lparr>substitution_table :=
        foldl dd_incr (substitution_table s) (map (Pair w1) ys)\<rparr>)"
  by (induction ys arbitrary: s) (simp_all add: modify_def)

lemma outer_replace_loop:
  "for_each xs (\<lambda>w1. for_each ys (\<lambda>w2. modify (\<lambda>s.
       s\<lparr>substitution_table := dd_incr (substitution_table s) (w1, w2)\<rparr>))) s =
     (Inr (), s\<lparr>substitution_table :=
        foldl dd_incr (substitution_table s) (List.product xs ys)\<rparr>)"
  by (induction xs arbitrary: s) (simp_all add: inner_replace_loop)

text \<open>
  Claim C4. For a replace opcode, \<open>track_confusions\<close> runs the body \<open>track_opcode\<close>,
  which does not raise and changes the substitution table only: it adds 1 once for each
  element of the cross product of the reference span and the hypothesis span, so the
  tally of a pair \<open>(w1, w2)\<close> grows by the number of times \<open>w1\<close> is in the reference
  span times the number of times \<open>w2\<close> is in the hypothesis span. A replace run of two
  reference tokens and two hypothesis tokens, all distinct, leaves four entries of 1 in
  an empty table.
\<close>

theorem track_confusions_replace_cross_product:
  "track_opcode seq1 seq2 (''replace'', i1, i2, j1, j2) s =
     (Inr (), s\<lparr>substitution_table :=
        foldl dd_incr (substitution_table s)
          (List.product (py_slice seq1 i1 i2) (py_slice seq2 j1 j2))\<rparr>)
   \<and> dd_get (substitution_table
         (snd (track_opcode seq1 seq2 (''replace'', i1, i2, j1, j2) s))) (w1, w2) =
       dd_get (substitution_table s) (w1, w2) +
       int (count_list (py_slice seq1 i1 i2) w1 * count_list (py_slice seq2 j1 j2) w2)
   \<and> track_opcode [''a'', ''b''] [''c'', ''d''] (''replace'', 0, 2, 0, 2) initial_state =
       (Inr (), initial_state\<lparr>substitution_table :=
          [(''a'', ''c'') \<mapsto> 1, (''a'', ''d'') \<mapsto> 1,
           (''b'', ''c'') \<mapsto> 1, (''b'', ''d'') \<mapsto> 1]\<rparr>)"
proof (intro conjI)
  show eq: "track_opcode seq1 seq2 (''replace'', i1, i2, j1, j2) s =
     (Inr (), s\<lparr>substitution_table :=
        foldl dd_incr (substitution_table s)
          (List.product (py_slice seq1 i1 i2) (py_slice seq2 j1 j2))\<rparr>)"
    by (simp add: track_opcode_def outer_replace_loop)
  show "dd_get (substitution_table
         (snd (track_opcode seq1 seq2 (''replace'', i1, i2, j1, j2) s))) (w1, w2) =
       dd_get (substitution_table s) (w1, w2) +
       int (count_list (py_slice seq1 i1 i2) w1 * count_list (py_slice seq2 j1 j2) w2)"
    by (simp add: eq dd_get_foldl_incr count_list_product)
  show "track_opcode [''a'', ''b''] [''c'', ''d''] (''replace'', 0, 2, 0, 2) initial_state =
       (Inr (), initial_state\<lparr>substitution_table :=
          [(''a'', ''c'') \<mapsto> 1, (''a'', ''d'') \<mapsto> 1,
           (''b'', ''c'') \<mapsto> 1, (''b'', ''d'') \<mapsto> 1]\<rparr>)"
    by (simp add: track_opcode_def modify_def dd_incr_def dd_get_def initial_state_def
        py_slice_def py_bound_def)
qed

section \<open>The loop body\<close>

lemma for_each_preserves:
  assumes "\<And>x s. f (snd (body x s)) = f s"
  shows "f (snd (for_each xs body s)) = f s"
proof (induction xs arbitrary: s)
  case Nil
  show ?case by simp
next
  case (Cons x xs)
  show ?case
  proof (cases "body x s")
    case (Pair r s1)
    have s1: "f s1 = f s" using assms [of x s] Pair by simp
    show ?thesis
    proof (cases r)
      case (Inl e)
      then show ?thesis using Pair s1 by simp
    next
      case (Inr u)
      then show ?thesis using Pair s1 Cons.IH [of s1] by simp
    qed
  qed
qed

lemma track_opcode_untracked:
  "untracked (snd (track_opcode seq1 seq2 opc s)) = untracked s"
proof -
  obtain tag i1 i2 j1 j2 where opc: "opc = (tag, i1, i2, j1, j2)" by (cases opc) auto
  have ins: "untracked (snd (for_each xs (\<lambda>i.
         and_then (lift (py_index seq2 i)) (\<lambda>word.
           modify (\<lambda>s. s\<lparr>insertion_table := dd_incr (insertion_table s) word\<rparr>))) s)) = untracked s" for xs s
    by (rule for_each_preserves) (auto simp: and_then_def lift_def modify_def untracked_def split: sum.splits)
  have del: "untracked (snd (for_each xs (\<lambda>i.
         and_then (lift (py_index seq1 i)) (\<lambda>word.
           modify (\<lambda>s. s\<lparr>deletion_table := dd_incr (deletion_table s) word\<rparr>))) s)) = untracked s" for xs s
    by (rule for_each_preserves) (auto simp: and_then_def lift_def modify_def untracked_def split: sum.splits)
  have rep: "untracked (s\<lparr>substitution_table := t\<rparr>) = untracked s" for t s
    by (simp add: untracked_def)
  show ?thesis
    by (simp add: opc track_opcode_def ins del outer_replace_loop ret_def rep)
qed

lemma track_confusions_untracked:
  "untracked (snd (track_confusions sm seq1 seq2 s)) = untracked s"
  unfolding track_confusions_def by (rule for_each_preserves) (rule track_opcode_untracked)

lemma track_confusions_frame:
  "track_confusions sm seq1 seq2 s = (r, s') \<Longrightarrow> untracked s' = untracked s"
  using track_confusions_untracked [of sm seq1 seq2 s] by simp

lemma get_match_count_Inr: "get_match_count sm = Inr m \<Longrightarrow> m = matches sm"
  by (auto simp: get_match_count_def Let_def split: if_splits)

lemma true_div_Inr: "true_div a b = Inr q \<Longrightarrow> b \<noteq> 0 \<and> q = of_int a / of_int b"
  by (auto simp: true_div_def split: if_splits)

lemma py_index_nat_Inr: "py_index xs (int n) = Inr x \<Longrightarrow> n < length xs \<and> x = xs ! n"
  by (auto simp: py_index_def split: if_splits)

lemmas prog_defs = and_then_def lift_def modify_def gets_def when_true_def ret_def

lemma process_pair_Inr:
  assumes "process_pair cfg SM (rl, hl) s = (Inr (), s')"
  shows "\<exists>ident ref hyp.
     split_off_ids (files_have_ids cfg) (split rl) (split hl) = Inr (ident, ref, hyp) \<and>
     get_match_count (SM ref hyp) = Inr (matches (SM ref hyp)) \<and>
     ref \<noteq> [] \<and> length ref < length (wer_bins s) \<and>
     error_count s' = error_count s + get_error_count (SM ref hyp) \<and>
     match_count s' = match_count s + matches (SM ref hyp) \<and>
     ref_token_count s' = ref_token_count s + int (length ref) \<and>
     lengths s' = lengths s @ [int (length ref)] \<and>
     error_rates s' = error_rates s @ [of_int (get_error_count (SM ref hyp)) / of_int (int (length ref))] \<and>
     wer_bins s' = (wer_bins s)[length ref := wer_bins s ! length ref @
        [of_int (get_error_count (SM ref hyp)) / of_int (int (length ref))]] \<and>
     counter s' = counter s + 1"
  using assms unfolding process_pair_def
  by (auto simp: prog_defs Let_def untracked_def
      split: sum.splits prod.splits if_splits
      dest!: track_confusions_frame get_match_count_Inr true_div_Inr py_index_nat_Inr)

lemma split_off_ids_Inr:
  "split_off_ids b r h = Inr (i, r', h') \<Longrightarrow>
     r' = (if b then py_slice r 0 (- 1) else r) \<and> h' = (if b then py_slice h 0 (- 1) else h)"
  by (auto simp: split_off_ids_def split: if_splits sum.splits)

lemma process_pair_totals:
  assumes "process_pair cfg SM p s = (Inr (), s')"
  shows "error_count s' = error_count s + get_error_count (pair_matcher cfg SM p)"
    and "match_count s' = match_count s + matches (pair_matcher cfg SM p)"
    and "ref_token_count s' = ref_token_count s + int (length (tokens_of cfg (fst p)))"
    and "lengths s' = lengths s @ [int (length (tokens_of cfg (fst p)))]"
    and "counter s' = counter s + 1"
    and "tokens_of cfg (fst p) \<noteq> []"
    and "length (tokens_of cfg (fst p)) < length (wer_bins s)"
    and "length (wer_bins s') = length (wer_bins s)"
proof -
  obtain rl hl where p: "p = (rl, hl)" by (cases p)
  from process_pair_Inr [OF assms [unfolded p]]
  obtain ident ref hyp where
    ids: "split_off_ids (files_have_ids cfg) (split rl) (split hl) = Inr (ident, ref, hyp)"
    and rest: "ref \<noteq> []" "length ref < length (wer_bins s)"
     "error_count s' = error_count s + get_error_count (SM ref hyp)"
     "match_count s' = match_count s + matches (SM ref hyp)"
     "ref_token_count s' = ref_token_count s + int (length ref)"
     "lengths s' = lengths s @ [int (length ref)]"
     "wer_bins s' = (wer_bins s)[length ref := wer_bins s ! length ref @
        [of_int (get_error_count (SM ref hyp)) / of_int (int (length ref))]]"
     "counter s' = counter s + 1"
    by blast
  from split_off_ids_Inr [OF ids]
  have toks: "ref = tokens_of cfg rl" "hyp = tokens_of cfg hl"
    by (simp_all add: tokens_of_def)
  show "error_count s' = error_count s + get_error_count (pair_matcher cfg SM p)"
    and "match_count s' = match_count s + matches (pair_matcher cfg SM p)"
    and "ref_token_count s' = ref_token_count s + int (length (tokens_of cfg (fst p)))"
    and "lengths s' = lengths s @ [int (length (tokens_of cfg (fst p)))]"
    and "counter s' = counter s + 1"
    and "tokens_of cfg (fst p) \<noteq> []"
    and "length (tokens_of cfg (fst p)) < length (wer_bins s)"
    and "length (wer_bins s') = length (wer_bins s)"
    using rest toks by (simp_all add: p pair_matcher_def)
qed

lemma for_each_pairs_totals:
  assumes "for_each ps (process_pair cfg SM) s = (Inr (), s')"
  shows "error_count s' = error_count s + (\<Sum>p \<leftarrow> ps. get_error_count (pair_matcher cfg SM p))
    \<and> match_count s' = match_count s + (\<Sum>p \<leftarrow> ps. matches (pair_matcher cfg SM p))
    \<and> ref_token_count s' = ref_token_count s + (\<Sum>p \<leftarrow> ps. int (length (tokens_of cfg (fst p))))
    \<and> lengths s' = lengths s @ map (\<lambda>p. int (length (tokens_of cfg (fst p)))) ps
    \<and> counter s' = counter s + int (length ps)
    \<and> length (wer_bins s') = length (wer_bins s)
    \<and> (\<forall>p \<in> set ps. tokens_of cfg (fst p) \<noteq> [] \<and> length (tokens_of cfg (fst p)) < length (wer_bins s))"
  using assms
proof (induction ps arbitrary: s)
  case Nil
  then show ?case by simp
next
  case (Cons p ps)
  obtain r s1 where step: "process_pair cfg SM p s = (r, s1)" by (cases "process_pair cfg SM p s")
  with Cons.prems have r: "r = Inr ()" and tail: "for_each ps (process_pair cfg SM) s1 = (Inr (), s')"
    by (auto split: sum.splits)
  note one = process_pair_totals [OF step [unfolded r]]
  from Cons.IH [OF tail] one show ?case by simp
qed

section \<open>The report\<close>

lemma zip_take_min:
  "zip (take (min (length xs) (length ys)) xs) (take (min (length xs) (length ys)) ys) = zip xs ys"
proof -
  have "zip (take (min (length xs) (length ys)) xs) (take (min (length xs) (length ys)) ys)
        = take (length (zip xs ys)) (zip xs ys)"
    by (simp only: take_zip length_zip)
  then show ?thesis by simp
qed

lemma main_after_loop:
  assumes "main_loop cfg SM ref_file hyp_file s = (Inr (), s')"
  shows "main cfg SM ref_file hyp_file s =
     (if ref_token_count s' = 0 then (Inl ZeroDivisionError, s')
      else (Inr \<lparr>WRR = of_int (100 * match_count s') / of_int (ref_token_count s'),
                 WER = of_int (100 * error_count s') / of_int (ref_token_count s')\<rparr>, s'))"
  using assms by (simp add: main_def prog_defs true_div_def)

lemma main_loop_raises:
  assumes "main_loop cfg SM ref_file hyp_file s = (Inl e, s')"
  shows "main cfg SM ref_file hyp_file s = (Inl e, s')"
  using assms by (simp add: main_def prog_defs)

text \<open>
  Claim C3. When the loop has processed every pair without raising and the reference
  token total is positive, the three running totals are the sums of the per-pair error
  counts, match counts and reference lengths, and \<open>main\<close> reports
  \<open>WRR = 100 * matches / tokens\<close> and \<open>WER = 100 * errors / tokens\<close> of these totals.
\<close>

theorem corpus_rates_from_totals:
  assumes "main_loop cfg SM ref_file hyp_file initial_state = (Inr (), s)"
    and "0 < (\<Sum>p \<leftarrow> zip ref_file hyp_file. int (length (tokens_of cfg (fst p))))"
  shows "error_count s = (\<Sum>p \<leftarrow> zip ref_file hyp_file. get_error_count (pair_matcher cfg SM p))
    \<and> match_count s = (\<Sum>p \<leftarrow> zip ref_file hyp_file. matches (pair_matcher cfg SM p))
    \<and> ref_token_count s = (\<Sum>p \<leftarrow> zip ref_file hyp_file. int (length (tokens_of cfg (fst p))))
    \<and> main cfg SM ref_file hyp_file initial_state =
        (Inr \<lparr>WRR = of_int (100 * (\<Sum>p \<leftarrow> zip ref_file hyp_file. matches (pair_matcher cfg SM p)))
                    / of_int (\<Sum>p \<leftarrow> zip ref_file hyp_file. int (length (tokens_of cfg (fst p)))),
              WER = of_int (100 * (\<Sum>p \<leftarrow> zip ref_file hyp_file. get_error_count (pair_matcher cfg SM p)))
                    / of_int (\<Sum>p \<leftarrow> zip ref_file hyp_file. int (length (tokens_of cfg (fst p))))\<rparr>, s)"
proof -
  from assms(1) have loop: "for_each (zip ref_file hyp_file) (process_pair cfg SM) initial_state = (Inr (), s)"
    by (simp add: main_loop_def)
  from for_each_pairs_totals [OF loop]
  have tot: "error_count s = (\<Sum>p \<leftarrow> zip ref_file hyp_file. get_error_count (pair_matcher cfg SM p))"
    "match_count s = (\<Sum>p \<leftarrow> zip ref_file hyp_file. matches (pair_matcher cfg SM p))"
    "ref_token_count s = (\<Sum>p \<leftarrow> zip ref_file hyp_file. int (length (tokens_of cfg (fst p))))"
    by (simp_all add: initial_state_def)
  from assms(2) tot(3) have pos: "ref_token_count s \<noteq> 0" by simp
  from main_after_loop [OF assms(1)] pos
  have "main cfg SM ref_file hyp_file initial_state =
     (Inr \<lparr>WRR = of_int (100 * match_count s) / of_int (ref_token_count s),
            WER = of_int (100 * error_count s) / of_int (ref_token_count s)\<rparr>, s)"
    by simp
  then show ?thesis using tot by simp
qed

theorem corpus_rates_from_totals_witness:
  "fst (main_loop \<lparr>print_instances = False, files_have_ids = False, confusions = False\<rparr>
      (\<lambda>a b. \<lparr>get_opcodes = [(''equal'', 0, 1, 0, 1), (''replace'', 1, 2, 1, 2)], matches = 1,
               get_matching_blocks = [(0, 0, 1)]\<rparr>)
      [''the cat'', ''a dog'', ''unread''] [''the hat'', ''a hog''] initial_state) = Inr ()
   \<and> fst (main \<lparr>print_instances = False, files_have_ids = False, confusions = False\<rparr>
      (\<lambda>a b. \<lparr>get_opcodes = [(''equal'', 0, 1, 0, 1), (''replace'', 1, 2, 1, 2)], matches = 1,
               get_matching_blocks = [(0, 0, 1)]\<rparr>)
      [''the cat'', ''a dog'', ''unread''] [''the hat'', ''a hog''] initial_state)
      = Inr \<lparr>WRR = 50, WER = 50\<rparr>"
proof -
  let ?cfg = "\<lparr>print_instances = False, files_have_ids = False, confusions = False\<rparr>"
  let ?SM = "\<lambda>(a::string list) (b::string list). \<lparr>get_opcodes = [(''equal'', 0, 1, 0, 1), (''replace'', 1, 2, 1, 2)],
      matches = 1, get_matching_blocks = [(0, 0, 1)]\<rparr>"
  let ?r = "[''the cat'', ''a dog'', ''unread'']"
  let ?h = "[''the hat'', ''a hog'']"
  have t1: "split ''the cat'' = [''the'', ''cat'']" and t2: "split ''a dog'' = [''a'', ''dog'']"
    and t3: "split ''the hat'' = [''the'', ''hat'']" and t4: "split ''a hog'' = [''a'', ''hog'']"
    by (simp_all add: split_def isspace_def)
  obtain s where loop: "main_loop ?cfg ?SM ?r ?h initial_state = (Inr (), s)"
    by (simp add: main_loop_def process_pair_def prog_defs Let_def split_off_ids_def t1 t2 t3 t4
        get_match_count_def reduce_def true_div_def py_index_def initial_state_def)
  have pos: "0 < (\<Sum>p \<leftarrow> zip ?r ?h. int (length (tokens_of ?cfg (fst p))))"
    by (simp add: tokens_of_def t1 t2)
  from corpus_rates_from_totals [OF loop pos] loop show ?thesis
    by (simp add: tokens_of_def pair_matcher_def t1 t2 get_error_count_def reduce_def error_codes_def)
qed

section \<open>Files of different lengths\<close>

text \<open>
  Claim C9. A run on two files is the run on their first \<open>min\<close> lines, where
  \<open>min\<close> is the smaller of the two line counts: the same result and the same
  globals, so the lines beyond the shorter file add nothing, and a difference in length
  raises nothing. When no pair raises, the loop has gone through exactly \<open>min\<close> pairs:
  \<open>counter\<close> has grown by \<open>min\<close> and \<open>lengths\<close> has \<open>min\<close> new entries.
\<close>

theorem main_stops_with_shorter_file:
  "main cfg SM ref_file hyp_file s =
     main cfg SM (take (min (length ref_file) (length hyp_file)) ref_file)
                 (take (min (length ref_file) (length hyp_file)) hyp_file) s
   \<and> (main_loop cfg SM ref_file hyp_file s = (Inr (), s') \<longrightarrow>
        counter s' = counter s + int (min (length ref_file) (length hyp_file)) \<and>
        length (lengths s') = length (lengths s) + min (length ref_file) (length hyp_file))"
proof
  show "main cfg SM ref_file hyp_file s =
     main cfg SM (take (min (length ref_file) (length hyp_file)) ref_file)
                 (take (min (length ref_file) (length hyp_file)) hyp_file) s"
    by (simp only: main_def main_loop_def zip_take_min)
next
  show "main_loop cfg SM ref_file hyp_file s = (Inr (), s') \<longrightarrow>
        counter s' = counter s + int (min (length ref_file) (length hyp_file)) \<and>
        length (lengths s') = length (lengths s) + min (length ref_file) (length hyp_file)"
  proof
    assume "main_loop cfg SM ref_file hyp_file s = (Inr (), s')"
    then have "for_each (zip ref_file hyp_file) (process_pair cfg SM) s = (Inr (), s')"
      by (simp add: main_loop_def)
    from for_each_pairs_totals [OF this]
    show "counter s' = counter s + int (min (length ref_file) (length hyp_file)) \<and>
        length (lengths s') = length (lengths s) + min (length ref_file) (length hyp_file)"
      by simp
  qed
qed

theorem main_stops_with_shorter_file_witness:
  "fst (main_loop \<lparr>print_instances = False, files_have_ids = False, confusions = False\<rparr>
      (\<lambda>a b. \<lparr>get_opcodes = [(''equal'', 0, 1, 0, 1), (''replace'', 1, 2, 1, 2)], matches = 1,
               get_matching_blocks = [(0, 0, 1)]\<rparr>)
      [''the cat'', ''a dog'', ''unread''] [''the hat'', ''a hog''] initial_state) = Inr ()
   \<and> counter (snd (main_loop \<lparr>print_instances = False, files_have_ids = False, confusions = False\<rparr>
      (\<lambda>a b. \<lparr>get_opcodes = [(''equal'', 0, 1, 0, 1), (''replace'', 1, 2, 1, 2)], matches = 1,
               get_matching_blocks = [(0, 0, 1)]\<rparr>)
      [''the cat'', ''a dog'', ''unread''] [''the hat'', ''a hog''] initial_state)) = 3
   \<and> length (lengths (snd (main_loop \<lparr>print_instances = False, files_have_ids = False, confusions = False\<rparr>
      (\<lambda>a b. \<lparr>get_opcodes = [(''equal'', 0, 1, 0, 1), (''replace'', 1, 2, 1, 2)], matches = 1,
               get_matching_blocks = [(0, 0, 1)]\<rparr>)
      [''the cat'', ''a dog'', ''unread''] [''the hat'', ''a hog''] initial_state))) = 2"
proof -
  let ?cfg = "\<lparr>print_instances = False, files_have_ids = False, confusions = False\<rparr>"
  let ?SM = "\<lambda>(a::string list) (b::string list). \<lparr>get_opcodes = [(''equal'', 0, 1, 0, 1), (''replace'', 1, 2, 1, 2)],
      matches = 1, get_matching_blocks = [(0, 0, 1)]\<rparr>"
  let ?r = "[''the cat'', ''a dog'', ''unread'']"
  let ?h = "[''the hat'', ''a hog'']"
  have t1: "split ''the cat'' = [''the'', ''cat'']" and t2: "split ''a dog'' = [''a'', ''dog'']"
    and t3: "split ''the hat'' = [''the'', ''hat'']" and t4: "split ''a hog'' = [''a'', ''hog'']"
    by (simp_all add: split_def isspace_def)
  obtain s where loop: "main_loop ?cfg ?SM ?r ?h initial_state = (Inr (), s)"
    by (simp add: main_loop_def process_pair_def prog_defs Let_def split_off_ids_def t1 t2 t3 t4
        get_match_count_def reduce_def true_div_def py_index_def initial_state_def)
  from main_stops_with_shorter_file [of ?cfg ?SM ?r ?h initial_state s] loop
  show ?thesis by (simp add: initial_state_def)
qed

section \<open>No pair at all\<close>

text \<open>
  Claim C10. When one of the two files has no line, the loop runs no pair, the
  reference token total is still 0 at line 106, and \<open>main\<close> raises
  \<open>ZeroDivisionError\<close> there: neither the WRR nor the WER line is computed.
\<close>

theorem no_pairs_divides_by_zero:
  assumes "ref_file = [] \<or> hyp_file = []"
  shows "main cfg SM ref_file hyp_file initial_state = (Inl ZeroDivisionError, initial_state)"
  using assms
  by (auto simp: main_def main_loop_def prog_defs true_div_def initial_state_def)

theorem no_pairs_divides_by_zero_witness:
  "main \<lparr>print_instances = False, files_have_ids = False, confusions = False\<rparr>
      (\<lambda>a b. \<lparr>get_opcodes = [], matches = 0, get_matching_blocks = []\<rparr>)
      [] [''the hat''] initial_state = (Inl ZeroDivisionError, initial_state)"
  using no_pairs_divides_by_zero [of "[]" "[''the hat'']"] by simp

section \<open>Mismatched identifiers\<close>

lemma py_index_last: "xs \<noteq> [] \<Longrightarrow> py_index xs (- 1) = Inr (last xs)"
  by (cases xs rule: rev_cases) (auto simp: py_index_def nth_append)

lemma process_pair_id_mismatch:
  assumes "files_have_ids cfg" "split rl \<noteq> []" "split hl \<noteq> []"
    "last (split rl) \<noteq> last (split hl)"
  shows "process_pair cfg SM (rl, hl) s = (Inl AssertionError, s)"
  using assms by (simp add: process_pair_def split_off_ids_def py_index_last prog_defs)

lemma zip_split_at:
  assumes "k < length xs" "k < length ys"
  shows "zip xs ys = zip (take k xs) (take k ys) @ (xs ! k, ys ! k) # zip (drop (Suc k) xs) (drop (Suc k) ys)"
proof -
  have "k < length (zip xs ys)" using assms by simp
  from id_take_nth_drop [OF this]
  have "zip xs ys = take k (zip xs ys) @ zip xs ys ! k # drop (Suc k) (zip xs ys)" .
  also have "zip xs ys ! k = (xs ! k, ys ! k)" using assms by simp
  finally show ?thesis by (simp only: take_zip drop_zip)
qed

lemma for_each_Inr_each:
  assumes "for_each xs body s = (Inr (), s')" "x \<in> set xs"
  shows "\<exists>s1 s2. body x s1 = (Inr (), s2)"
  using assms
proof (induction xs arbitrary: s)
  case Nil
  then show ?case by simp
next
  case (Cons y ys)
  obtain r s1 where step: "body y s = (r, s1)" by (cases "body y s")
  with Cons.prems(1) have r: "r = Inr ()" and tail: "for_each ys body s1 = (Inr (), s')"
    by (auto split: sum.splits)
  show ?case
  proof (cases "x = y")
    case True
    then show ?thesis using step r by blast
  next
    case False
    then have "x \<in> set ys" using Cons.prems(2) by simp
    from Cons.IH [OF tail this] show ?thesis .
  qed
qed

lemma id_mismatch_never_completes:
  assumes "files_have_ids cfg"
    and "k < length ref_file" and "k < length hyp_file"
    and "split (ref_file ! k) \<noteq> []" and "split (hyp_file ! k) \<noteq> []"
    and "last (split (ref_file ! k)) \<noteq> last (split (hyp_file ! k))"
  shows "fst (main_loop cfg SM ref_file hyp_file s) \<noteq> Inr ()"
proof
  assume "fst (main_loop cfg SM ref_file hyp_file s) = Inr ()"
  then obtain s' where run: "for_each (zip ref_file hyp_file) (process_pair cfg SM) s = (Inr (), s')"
    by (cases "main_loop cfg SM ref_file hyp_file s") (simp add: main_loop_def)
  have mem: "(ref_file ! k, hyp_file ! k) \<in> set (zip ref_file hyp_file)"
    using assms(2,3) by (auto simp: set_zip)
  from for_each_Inr_each [OF run mem]
  obtain s1 s2 where "process_pair cfg SM (ref_file ! k, hyp_file ! k) s1 = (Inr (), s2)"
    by auto
  then show False using process_pair_id_mismatch [OF assms(1,4,5,6), of SM s1] by simp
qed

text \<open>
  Claim C8. With \<open>--has-ids\<close>, take a pair of lines that both have a last token and
  whose last tokens differ. The \<open>assert\<close> of line 70 raises for it; the error of an
  identifier mismatch is Python's \<open>AssertionError\<close>. The pair leaves every global as it
  was, the loop and \<open>main\<close> never complete, and when the pairs before it run through,
  \<open>main\<close> ends with that error in the state those pairs left: the pair and the lines
  after it add nothing to any total or table.
\<close>

theorem identifier_mismatch_aborts:
  assumes "files_have_ids cfg"
    and "k < length ref_file" and "k < length hyp_file"
    and "split (ref_file ! k) \<noteq> []" and "split (hyp_file ! k) \<noteq> []"
    and "last (split (ref_file ! k)) \<noteq> last (split (hyp_file ! k))"
  shows "process_pair cfg SM (ref_file ! k, hyp_file ! k) t = (Inl AssertionError, t)
    \<and> fst (main_loop cfg SM ref_file hyp_file s) \<noteq> Inr ()
    \<and> fst (main cfg SM ref_file hyp_file s) \<noteq> Inr r
    \<and> (main_loop cfg SM (take k ref_file) (take k hyp_file) s = (Inr (), sk) \<longrightarrow>
          main_loop cfg SM ref_file hyp_file s = (Inl AssertionError, sk) \<and>
          main cfg SM ref_file hyp_file s = (Inl AssertionError, sk))"
proof (intro conjI impI)
  show pair: "process_pair cfg SM (ref_file ! k, hyp_file ! k) t = (Inl AssertionError, t)" for t
    using assms(1,4,5,6) by (rule process_pair_id_mismatch)
  show never: "fst (main_loop cfg SM ref_file hyp_file s) \<noteq> Inr ()"
    using assms by (rule id_mismatch_never_completes)
  show "fst (main cfg SM ref_file hyp_file s) \<noteq> Inr r"
  proof (cases "main_loop cfg SM ref_file hyp_file s")
    case (Pair res s')
    with never obtain e where "res = Inl e" by (cases res) auto
    with Pair main_loop_raises [of cfg SM ref_file hyp_file s e s'] show ?thesis by simp
  qed
  assume "main_loop cfg SM (take k ref_file) (take k hyp_file) s = (Inr (), sk)"
  then have pre: "for_each (zip (take k ref_file) (take k hyp_file)) (process_pair cfg SM) s = (Inr (), sk)"
    by (simp add: main_loop_def)
  show loop: "main_loop cfg SM ref_file hyp_file s = (Inl AssertionError, sk)"
    unfolding main_loop_def
    by (subst zip_split_at [OF assms(2,3)]) (simp add: for_each_append pre pair)
  show "main cfg SM ref_file hyp_file s = (Inl AssertionError, sk)"
    using loop by (rule main_loop_raises)
qed

theorem identifier_mismatch_aborts_witness:
  "split ''the cat utt1'' \<noteq> [] \<and> split ''the hat utt2'' \<noteq> []
   \<and> last (split ''the cat utt1'') \<noteq> last (split ''the hat utt2'')
   \<and> main \<lparr>print_instances = False, files_have_ids = True, confusions = False\<rparr>
      (\<lambda>a b. \<lparr>get_opcodes = [(''equal'', 0, 1, 0, 1), (''replace'', 1, 2, 1, 2)], matches = 1,
               get_matching_blocks = [(0, 0, 1)]\<rparr>)
      [''the cat utt1''] [''the hat utt2''] initial_state = (Inl AssertionError, initial_state)"
proof -
  let ?cfg = "\<lparr>print_instances = False, files_have_ids = True, confusions = False\<rparr>"
  let ?SM = "\<lambda>(a::string list) (b::string list). \<lparr>get_opcodes = [(''equal'', 0, 1, 0, 1), (''replace'', 1, 2, 1, 2)],
      matches = 1, get_matching_blocks = [(0, 0, 1)]\<rparr>"
  have t1: "split ''the cat utt1'' = [''the'', ''cat'', ''utt1'']"
    and t2: "split ''the hat utt2'' = [''the'', ''hat'', ''utt2'']"
    by (simp_all add: split_def isspace_def)
  have ids: "files_have_ids ?cfg" by simp
  have k: "0 < length [''the cat utt1'']" "0 < length [''the hat utt2'']" by simp_all
  have ne: "split ([''the cat utt1''] ! 0) \<noteq> []" "split ([''the hat utt2''] ! 0) \<noteq> []"
    by (simp_all add: t1 t2)
  have diff: "last (split ([''the cat utt1''] ! 0)) \<noteq> last (split ([''the hat utt2''] ! 0))"
    by (simp add: t1 t2)
  have pre: "main_loop ?cfg ?SM (take 0 [''the cat utt1'']) (take 0 [''the hat utt2'']) initial_state
      = (Inr (), initial_state)"
    by (simp add: main_loop_def)
  from identifier_mismatch_aborts [OF ids k ne diff, of ?SM initial_state initial_state "\<lparr>WRR = 0, WER = 0\<rparr>" initial_state]
    pre ne diff
  show ?thesis by simp
qed

section \<open>Widths in the diff\<close>

lemma py_slice_in_range:
  assumes "0 \<le> i" "i \<le> j" "j \<le> int (length xs)"
  shows "py_slice xs i j = take (nat (j - i)) (drop (nat i) xs)"
  using assms by (simp add: py_slice_def py_bound_def)

lemma length_py_slice:
  assumes "0 \<le> i" "i \<le> j" "j \<le> int (length xs)"
  shows "length (py_slice xs i j) = nat (j - i)"
  using assms by (simp add: py_slice_in_range)

lemma set_py_slice: "set (py_slice xs i j) \<subseteq> set xs"
  unfolding py_slice_def
  by (meson set_take_subset set_drop_subset subset_trans)

lemma length_py_range: "length (py_range i j) = nat (j - i)"
  by (simp add: py_range_def)

lemma py_range_empty: "j \<le> i \<Longrightarrow> py_range i j = []"
  by (simp add: py_range_def)

lemma py_range_Cons: "i < j \<Longrightarrow> py_range i j = i # py_range (i + 1) j"
  by (simp add: py_range_def upto_rec1)

lemma token_at_in_range:
  "0 \<le> i \<Longrightarrow> i < int (length seq) \<Longrightarrow> token_at f seq i = Inr (f (seq ! nat i))"
  by (simp add: token_at_def py_index_def)

lemma map_err_token_at_range:
  assumes "0 \<le> i" "i \<le> j" "j \<le> int (length seq)"
  shows "map_err (token_at f seq) (py_range i j) = Inr (map f (py_slice seq i j))"
  using assms
proof (induction "nat (j - i)" arbitrary: i)
  case 0
  then have "i = j" by simp
  then show ?case by (simp add: py_range_empty py_slice_def)
next
  case (Suc d)
  then have lt: "i < j" and d: "d = nat (j - (i + 1))" by simp_all
  have ih: "map_err (token_at f seq) (py_range (i + 1) j) = Inr (map f (py_slice seq (i + 1) j))"
    using Suc.hyps(1) [OF d] Suc.prems lt by simp
  have idx: "nat i < length seq" using Suc.prems lt by simp
  have "py_slice seq i j = take (Suc d) (drop (nat i) seq)"
    using Suc.prems Suc.hyps(2) by (simp add: py_slice_in_range)
  also have "\<dots> = seq ! nat i # take d (drop (Suc (nat i)) seq)"
    using idx by (simp add: Cons_nth_drop_Suc [symmetric])
  also have "take d (drop (Suc (nat i)) seq) = py_slice seq (i + 1) j"
    using Suc.prems lt d by (simp add: py_slice_in_range nat_add_distrib)
  finally have sl: "py_slice seq i j = seq ! nat i # py_slice seq (i + 1) j" .
  show ?case
    using Suc.prems lt by (simp add: py_range_Cons token_at_in_range ih sl)
qed

lemma length_upper [simp]: "length (upper w) = length w"
  by (simp add: upper_def)

lemma length_lower [simp]: "length (lower w) = length w"
  by (simp add: lower_def)

lemma length_stars [simp]: "length (stars w) = length w"
  by (simp add: stars_def)

lemma upper_Nil_iff [simp]: "upper w = [] \<longleftrightarrow> w = []"
  by (simp add: upper_def)

lemma fix_slot_width:
  assumes "(w1 \<noteq> None \<or> w2 \<noteq> None) \<and> w1 \<noteq> Some [] \<and> w2 \<noteq> Some []"
  shows "\<exists>a b. fix_slot w1 w2 = Inr (a, b) \<and> length a = length b"
  using assms by (cases w1; cases w2) (auto simp: fix_slot_def)

lemma fix_slots_widths:
  assumes "\<And>w1 w2. (w1, w2) \<in> set ps \<Longrightarrow> (w1 \<noteq> None \<or> w2 \<noteq> None) \<and> w1 \<noteq> Some [] \<and> w2 \<noteq> Some []"
  shows "\<exists>slots. map_err (\<lambda>(w1, w2). fix_slot w1 w2) ps = Inr slots \<and>
           map length (map fst slots) = map length (map snd slots)"
  using assms
proof (induction ps)
  case Nil
  show ?case by simp
next
  case (Cons p ps)
  obtain w1 w2 where p: "p = (w1, w2)" by (cases p)
  have ok: "(w1 \<noteq> None \<or> w2 \<noteq> None) \<and> w1 \<noteq> Some [] \<and> w2 \<noteq> Some []"
    using Cons.prems [of w1 w2] p by simp
  from fix_slot_width [OF this]
  obtain a b where one: "fix_slot w1 w2 = Inr (a, b)" and w: "length a = length b"
    by auto
  from Cons.IH Cons.prems obtain slots where
    rest: "map_err (\<lambda>(w1, w2). fix_slot w1 w2) ps = Inr slots"
    and ws: "map length (map fst slots) = map length (map snd slots)"
    by auto
  show ?case using one w rest ws by (simp add: p)
qed

lemma length_join:
  "length (join sep xs) = sum_list (map length xs) + length sep * (length xs - 1)"
  by (induction sep xs rule: join.induct) simp_all

lemma join_same_widths:
  assumes "map length xs = map length ys"
  shows "length (join sep xs) = length (join sep ys)"
proof -
  from assms have "length xs = length ys" by (metis length_map)
  with assms show ?thesis by (simp add: length_join)
qed

lemma replace_slots_widths:
  assumes v1: "0 \<le> i1" "i1 \<le> i2" "i2 \<le> int (length seq1)"
    and v2: "0 \<le> j1" "j1 \<le> j2" "j2 \<le> int (length seq2)"
    and ne: "[] \<notin> set seq1" "[] \<notin> set seq2"
  shows "\<exists>r h. diff_opcode seq1 seq2 (''replace'', i1, i2, j1, j2) = Inr (r, h) \<and>
           map length r = map length h"
proof -
  define s1 where "s1 = map (\<lambda>w. Some (upper w)) (py_slice seq1 i1 i2)"
  define s2 where "s2 = map (\<lambda>w. Some (upper w)) (py_slice seq2 j1 j2)"
  define s2' where "s2' = (if i2 - i1 > j2 - j1
       then s2 @ replicate (length (py_range 0 ((i2 - i1) - (j2 - j1)))) None else s2)"
  define s1' where "s1' = (if i2 - i1 < j2 - j1
       then s1 @ replicate (length (py_range 0 ((j2 - j1) - (i2 - i1)))) None else s1)"
  have l1: "length s1 = nat (i2 - i1)" using v1 by (simp add: s1_def length_py_slice)
  have l2: "length s2 = nat (j2 - j1)" using v2 by (simp add: s2_def length_py_slice)
  have len: "length s1' = length s2'"
    using v1 v2 by (auto simp: s1'_def s2'_def l1 l2 length_py_range)
  have in1: "w \<noteq> Some []" if "w \<in> set s1" for w
    using that ne(1) set_py_slice [of seq1 i1 i2] by (auto simp: s1_def)
  have in2: "w \<noteq> Some []" if "w \<in> set s2" for w
    using that ne(2) set_py_slice [of seq2 j1 j2] by (auto simp: s2_def)
  have some1: "w \<noteq> None" if "w \<in> set s1" for w using that by (auto simp: s1_def)
  have some2: "w \<noteq> None" if "w \<in> set s2" for w using that by (auto simp: s2_def)
  have ok: "(w1 \<noteq> None \<or> w2 \<noteq> None) \<and> w1 \<noteq> Some [] \<and> w2 \<noteq> Some []"
    if mem: "(w1, w2) \<in> set (zip s1' s2')" for w1 w2
  proof -
    from mem have m1: "w1 \<in> set s1'" and m2: "w2 \<in> set s2'"
      by (auto dest: set_zip_leftD set_zip_rightD)
    have a: "w1 \<noteq> Some []" using m1 in1 by (auto simp: s1'_def split: if_splits)
    have b: "w2 \<noteq> Some []" using m2 in2 by (auto simp: s2'_def split: if_splits)
    have c: "w1 \<noteq> None \<or> w2 \<noteq> None"
    proof (cases "i2 - i1 < j2 - j1")
      case True
      then have "s2' = s2" by (simp add: s2'_def)
      with m2 some2 show ?thesis by auto
    next
      case False
      then have "s1' = s1" by (simp add: s1'_def)
      with m1 some1 show ?thesis by auto
    qed
    from a b c show ?thesis by simp
  qed
  from fix_slots_widths [of "zip s1' s2'", OF ok]
  obtain slots where sl: "map_err (\<lambda>(w1, w2). fix_slot w1 w2) (zip s1' s2') = Inr slots"
    and ws: "map length (map fst slots) = map length (map snd slots)"
    by auto
  have "diff_opcode seq1 seq2 (''replace'', i1, i2, j1, j2) = Inr (map fst slots, map snd slots)"
    using len sl unfolding s1'_def s2'_def s1_def s2_def
    by (auto simp: diff_opcode_def Let_def)
  with ws show ?thesis by blast
qed

lemma diff_opcode_widths:
  assumes "valid_opcode seq1 seq2 opc" "[] \<notin> set seq1" "[] \<notin> set seq2"
  shows "\<exists>r h. diff_opcode seq1 seq2 opc = Inr (r, h) \<and> map length r = map length h"
proof -
  obtain tag i1 i2 j1 j2 where opc: "opc = (tag, i1, i2, j1, j2)" by (cases opc) auto
  from assms(1) have v1: "0 \<le> i1" "i1 \<le> i2" "i2 \<le> int (length seq1)"
    and v2: "0 \<le> j1" "j1 \<le> j2" "j2 \<le> int (length seq2)"
    and eq: "tag = ''equal'' \<Longrightarrow> py_slice seq1 i1 i2 = py_slice seq2 j1 j2"
    by (simp_all add: opc valid_opcode_def)
  consider "tag = ''equal''" | "tag = ''delete''" | "tag = ''insert''" | "tag = ''replace''"
    | "tag \<noteq> ''equal''" "tag \<noteq> ''delete''" "tag \<noteq> ''insert''" "tag \<noteq> ''replace''"
    by blast
  then show ?thesis
  proof cases
    case 1
    then show ?thesis
      using eq by (simp add: opc diff_opcode_def map_err_token_at_range [OF v1]
          map_err_token_at_range [OF v2])
  next
    case 2
    then show ?thesis
      by (simp add: opc diff_opcode_def map_err_token_at_range [OF v1] comp_def)
  next
    case 3
    then show ?thesis
      by (simp add: opc diff_opcode_def map_err_token_at_range [OF v2] comp_def)
  next
    case 4
    then show ?thesis
      using replace_slots_widths [OF v1 v2 assms(2,3)] by (simp add: opc)
  next
    case 5
    then show ?thesis by (simp add: opc diff_opcode_def)
  qed
qed

lemma diff_tokens_widths:
  assumes "list_all (valid_opcode seq1 seq2) opcodes" "[] \<notin> set seq1" "[] \<notin> set seq2"
    "map length r0 = map length h0"
  shows "\<exists>r h. diff_tokens opcodes seq1 seq2 (r0, h0) = Inr (r, h) \<and> map length r = map length h"
  using assms(1,4)
proof (induction opcodes arbitrary: r0 h0)
  case Nil
  then show ?case by simp
next
  case (Cons opc opcodes)
  from Cons.prems(1) have v: "valid_opcode seq1 seq2 opc"
    and vs: "list_all (valid_opcode seq1 seq2) opcodes" by simp_all
  from diff_opcode_widths [OF v assms(2,3)]
  obtain r h where one: "diff_opcode seq1 seq2 opc = Inr (r, h)" and w: "map length r = map length h"
    by auto
  have "map length (r0 @ r) = map length (h0 @ h)" using Cons.prems(2) w by simp
  from Cons.IH [OF vs this] show ?case by (simp add: one)
qed

text \<open>
  Claim C5 as stated fails. For the reference \<open>ab\<close> and the hypothesis \<open>c\<close>, one replace
  opcode, \<open>print_diff\<close> pads the shorter word with a space: the lines are \<open>REF: AB\<close> and
  \<open>HYP: C\<close> followed by a space. Split on single spaces they have 2 and 3 pieces; split
  at runs of whitespace, the second pieces \<open>AB\<close> and \<open>C\<close> differ in length.
\<close>

theorem print_diff_split_counterexample:
  "print_diff \<lparr>get_opcodes = [(''replace'', 0, 1, 0, 1)], matches = 0, get_matching_blocks = []\<rparr>
      [''ab''] [''c''] = Inr [replicate 60 CHR ''='', ''REF: AB'', ''HYP: C '']
   \<and> split_on_space ''REF: AB'' = [''REF:'', ''AB'']
   \<and> split_on_space ''HYP: C '' = [''HYP:'', ''C'', '''']
   \<and> length (split_on_space ''REF: AB'') \<noteq> length (split_on_space ''HYP: C '')
   \<and> split ''REF: AB'' = [''REF:'', ''AB''] \<and> split ''HYP: C '' = [''HYP:'', ''C'']
   \<and> length (split ''REF: AB'' ! 1) \<noteq> length (split ''HYP: C '' ! 1)"
  by (simp add: print_diff_def diff_opcode_def py_slice_def py_bound_def py_range_def
      upper_def upper_char_def ascii_lowercase_def ascii_uppercase_def fix_slot_def
      split_on_space_def split_def isspace_def)

text \<open>
  Claim C5, amended. For opcodes that satisfy \<open>valid_opcode\<close> and sequences without an
  empty token, \<open>print_diff\<close> does not raise, and the two token lists it joins with
  single spaces have the same number of entries, with entries of equal character length
  at each position; so the REF line and the HYP line have the same length. The entries,
  not the pieces between spaces, are what is aligned: an entry of a replace run can end
  in padding spaces.
\<close>

theorem print_diff_same_widths:
  assumes "list_all (valid_opcode seq1 seq2) (get_opcodes sm)"
    and "[] \<notin> set seq1" and "[] \<notin> set seq2"
  shows "\<exists>ref_tokens hyp_tokens.
     diff_tokens (get_opcodes sm) seq1 seq2 ([], []) = Inr (ref_tokens, hyp_tokens)
     \<and> print_diff sm seq1 seq2 =
         Inr [replicate 60 CHR ''='', ''REF: '' @ join '' '' ref_tokens,
              ''HYP: '' @ join '' '' hyp_tokens]
     \<and> length ref_tokens = length hyp_tokens
     \<and> (\<forall>k < length ref_tokens. length (ref_tokens ! k) = length (hyp_tokens ! k))
     \<and> length (''REF: '' @ join '' '' ref_tokens) = length (''HYP: '' @ join '' '' hyp_tokens)"
proof -
  from diff_tokens_widths [OF assms, of "[]" "[]"]
  obtain r h where toks: "diff_tokens (get_opcodes sm) seq1 seq2 ([], []) = Inr (r, h)"
    and w: "map length r = map length h"
    by auto
  from w have len: "length r = length h" by (metis length_map)
  have each: "length (r ! k) = length (h ! k)" if "k < length r" for k
  proof -
    have "length (r ! k) = map length r ! k" using that by simp
    also have "\<dots> = map length h ! k" using w by simp
    also have "\<dots> = length (h ! k)" using that len by simp
    finally show ?thesis .
  qed
  have lines: "print_diff sm seq1 seq2 =
         Inr [replicate 60 CHR ''='', ''REF: '' @ join '' '' r, ''HYP: '' @ join '' '' h]"
    by (simp add: print_diff_def toks)
  have "length (''REF: '' @ join '' '' r) = length (''HYP: '' @ join '' '' h)"
    using join_same_widths [OF w, of "'' ''"] by simp
  with toks lines len each show ?thesis by blast
qed

theorem print_diff_same_widths_witness:
  "list_all (valid_opcode [''ab''] [''c'']) [(''replace'', 0, 1, 0, 1)]
   \<and> [] \<notin> set [''ab''] \<and> [] \<notin> set [''c'']
   \<and> (\<exists>ref_tokens hyp_tokens.
        print_diff \<lparr>get_opcodes = [(''replace'', 0, 1, 0, 1)], matches = 0,
            get_matching_blocks = []\<rparr> [''ab''] [''c''] =
          Inr [replicate 60 CHR ''='', ''REF: '' @ join '' '' ref_tokens,
               ''HYP: '' @ join '' '' hyp_tokens]
        \<and> length ref_tokens = length hyp_tokens
        \<and> length (''REF: '' @ join '' '' ref_tokens) = length (''HYP: '' @ join '' '' hyp_tokens))"
proof -
  let ?sm = "\<lparr>get_opcodes = [(''replace'', 0, 1, 0, 1)], matches = 0, get_matching_blocks = []\<rparr>"
  have v: "list_all (valid_opcode [''ab''] [''c'']) (get_opcodes ?sm)"
    by (simp add: valid_opcode_def)
  have n1: "[] \<notin> set [''ab'']" and n2: "[] \<notin> set [''c'']" by simp_all
  from print_diff_same_widths [OF v n1 n2]
  obtain r h where "print_diff ?sm [''ab''] [''c''] =
         Inr [replicate 60 CHR ''='', ''REF: '' @ join '' '' r, ''HYP: '' @ join '' '' h]"
    and "length r = length h"
    and "length (''REF: '' @ join '' '' r) = length (''HYP: '' @ join '' '' h)"
    by blast
  then have "\<exists>ref_tokens hyp_tokens.
        print_diff ?sm [''ab''] [''c''] =
          Inr [replicate 60 CHR ''='', ''REF: '' @ join '' '' ref_tokens,
               ''HYP: '' @ join '' '' hyp_tokens]
        \<and> length ref_tokens = length hyp_tokens
        \<and> length (''REF: '' @ join '' '' ref_tokens) = length (''HYP: '' @ join '' '' hyp_tokens)"
    by blast
  with v n1 n2 show ?thesis by simp
qed

section \<open>An empty reference\<close>

lemma for_each_all_ok:
  assumes "\<And>x s. x \<in> set xs \<Longrightarrow> fst (body x s) = Inr ()"
  shows "fst (for_each xs body s) = Inr ()"
  using assms
proof (induction xs arbitrary: s)
  case Nil
  show ?case by simp
next
  case (Cons x xs)
  obtain r s1 where step: "body x s = (r, s1)" by (cases "body x s")
  with Cons.prems [of x s] have r: "r = Inr ()" by simp
  have "fst (for_each xs body s1) = Inr ()"
    by (rule Cons.IH) (simp add: Cons.prems)
  then show ?case by (simp add: step r)
qed

lemma set_py_range: "set (py_range i j) = {i..<j}"
  by (auto simp: py_range_def)

lemma py_index_in_range:
  "0 \<le> i \<Longrightarrow> i < int (length xs) \<Longrightarrow> py_index xs i = Inr (xs ! nat i)"
  by (simp add: py_index_def)

lemma track_opcode_ok:
  assumes "valid_opcode seq1 seq2 opc"
  shows "fst (track_opcode seq1 seq2 opc s) = Inr ()"
proof -
  obtain tag i1 i2 j1 j2 where opc: "opc = (tag, i1, i2, j1, j2)" by (cases opc) auto
  from assms have v1: "0 \<le> i1" "i1 \<le> i2" "i2 \<le> int (length seq1)"
    and v2: "0 \<le> j1" "j1 \<le> j2" "j2 \<le> int (length seq2)"
    by (simp_all add: opc valid_opcode_def)
  have ins: "fst (for_each (py_range j1 j2) (\<lambda>i.
         and_then (lift (py_index seq2 i)) (\<lambda>word.
           modify (\<lambda>s. s\<lparr>insertion_table := dd_incr (insertion_table s) word\<rparr>))) s) = Inr ()"
    using v2 by (intro for_each_all_ok) (simp add: set_py_range prog_defs py_index_in_range)
  have del: "fst (for_each (py_range i1 i2) (\<lambda>i.
         and_then (lift (py_index seq1 i)) (\<lambda>word.
           modify (\<lambda>s. s\<lparr>deletion_table := dd_incr (deletion_table s) word\<rparr>))) s) = Inr ()"
    using v1 by (intro for_each_all_ok) (simp add: set_py_range prog_defs py_index_in_range)
  show ?thesis
    by (simp add: opc track_opcode_def ins del outer_replace_loop ret_def)
qed

lemma track_confusions_ok:
  assumes "list_all (valid_opcode seq1 seq2) (get_opcodes sm)"
  shows "fst (track_confusions sm seq1 seq2 s) = Inr ()"
  unfolding track_confusions_def
  using assms by (intro for_each_all_ok track_opcode_ok) (simp add: list_all_iff)

lemma split_from_nonempty: "[] \<notin> set (split_from cur s)"
  by (induction cur s rule: split_from.induct) auto

lemma split_nonempty: "[] \<notin> set (split line)"
  by (simp add: split_def split_from_nonempty)

lemma split_off_ids_nonempty:
  assumes "split_off_ids b (split rl) (split hl) = Inr (ident, ref, hyp)"
  shows "[] \<notin> set ref \<and> [] \<notin> set hyp"
proof -
  from split_off_ids_Inr [OF assms]
  have "set ref \<subseteq> set (split rl)" "set hyp \<subseteq> set (split hl)"
    by (auto split: if_splits dest: subsetD [OF set_py_slice])
  then show ?thesis using split_nonempty by blast
qed

lemma print_diff_succeeds:
  assumes "list_all (valid_opcode seq1 seq2) (get_opcodes sm)"
    and "[] \<notin> set seq1" and "[] \<notin> set seq2"
  shows "\<exists>ls. print_diff sm seq1 seq2 = Inr ls"
proof -
  from diff_tokens_widths [OF assms, of "[]" "[]"]
  obtain r h where "diff_tokens (get_opcodes sm) seq1 seq2 ([], []) = Inr (r, h)" by auto
  then show ?thesis by (simp add: print_diff_def)
qed

lemma process_pair_empty_ref:
  assumes ids: "split_off_ids (files_have_ids cfg) (split ref_line) (split hyp_line) = Inr (ident, [], hyp)"
    and mc: "get_match_count (SM [] hyp) = Inr m"
    and v: "list_all (valid_opcode [] hyp) (get_opcodes (SM [] hyp))"
  shows "fst (process_pair cfg SM (ref_line, hyp_line) s) = Inl ZeroDivisionError
    \<and> error_rates (snd (process_pair cfg SM (ref_line, hyp_line) s)) = error_rates s
    \<and> wer_bins (snd (process_pair cfg SM (ref_line, hyp_line) s)) = wer_bins s"
proof -
  define s1 where "s1 = s\<lparr>error_count := error_count s + get_error_count (SM [] hyp),
      match_count := match_count s + m, ref_token_count := ref_token_count s + 0\<rparr>"
  obtain s2 where tc: "track_confusions (SM [] hyp) [] hyp s1 = (Inr (), s2)"
    using track_confusions_ok [OF v, of s1] by (cases "track_confusions (SM [] hyp) [] hyp s1") simp
  from track_confusions_frame [OF tc] have fr: "error_rates s2 = error_rates s" "wer_bins s2 = wer_bins s"
    by (simp_all add: untracked_def s1_def)
  from split_off_ids_nonempty [OF ids] have ne: "[] \<notin> set ([]::string list)" "[] \<notin> set hyp" by simp_all
  from print_diff_succeeds [OF v ne]
  obtain ls where pd: "print_diff (SM [] hyp) [] hyp = Inr ls" by auto
  show ?thesis
    using tc fr unfolding s1_def
    by (cases "confusions cfg"; cases "print_instances cfg")
       (simp_all add: process_pair_def ids mc pd prog_defs true_div_def Let_def)
qed

lemma main_loop_raises_at:
  assumes "k < length ref_file" "k < length hyp_file"
    and "main_loop cfg SM (take k ref_file) (take k hyp_file) s = (Inr (), sk)"
    and "process_pair cfg SM (ref_file ! k, hyp_file ! k) sk = (Inl e, s')"
  shows "main_loop cfg SM ref_file hyp_file s = (Inl e, s')"
proof -
  have pre: "for_each (zip (take k ref_file) (take k hyp_file)) (process_pair cfg SM) s = (Inr (), sk)"
    using assms(3) by (simp add: main_loop_def)
  show ?thesis
    unfolding main_loop_def
    by (subst zip_split_at [OF assms(1,2)]) (simp add: for_each_append pre assms(4))
qed

text \<open>
  Claim C6. Take a pair whose reference has no token left after the identifiers are
  split off, with a matcher that passes the assertion of \<open>get_match_count\<close> and has
  valid opcodes. The pair raises \<open>ZeroDivisionError\<close>: at line 95 with
  \<open>--print-instances\<close>, at line 100 without. Nothing is appended to \<open>error_rates\<close> or to
  \<open>wer_bins\<close>, the loop never completes, and when the pairs before it run through, the
  loop and \<open>main\<close> end with that error.
\<close>

theorem empty_reference_divides_by_zero:
  assumes "k < length ref_file" and "k < length hyp_file"
    and "split_off_ids (files_have_ids cfg) (split (ref_file ! k)) (split (hyp_file ! k)) =
           Inr (ident, [], hyp)"
    and "get_match_count (SM [] hyp) = Inr m"
    and "list_all (valid_opcode [] hyp) (get_opcodes (SM [] hyp))"
  shows "fst (process_pair cfg SM (ref_file ! k, hyp_file ! k) t) = Inl ZeroDivisionError
    \<and> error_rates (snd (process_pair cfg SM (ref_file ! k, hyp_file ! k) t)) = error_rates t
    \<and> wer_bins (snd (process_pair cfg SM (ref_file ! k, hyp_file ! k) t)) = wer_bins t
    \<and> fst (main_loop cfg SM ref_file hyp_file s) \<noteq> Inr ()
    \<and> (main_loop cfg SM (take k ref_file) (take k hyp_file) s = (Inr (), sk) \<longrightarrow>
          fst (main_loop cfg SM ref_file hyp_file s) = Inl ZeroDivisionError \<and>
          fst (main cfg SM ref_file hyp_file s) = Inl ZeroDivisionError)"
proof (intro conjI impI)
  note pair = process_pair_empty_ref [where SM = SM and hyp = hyp, OF assms(3,4,5)]
  show "fst (process_pair cfg SM (ref_file ! k, hyp_file ! k) t) = Inl ZeroDivisionError"
    and "error_rates (snd (process_pair cfg SM (ref_file ! k, hyp_file ! k) t)) = error_rates t"
    and "wer_bins (snd (process_pair cfg SM (ref_file ! k, hyp_file ! k) t)) = wer_bins t"
    using pair [of t] by simp_all
  show "fst (main_loop cfg SM ref_file hyp_file s) \<noteq> Inr ()"
  proof
    assume "fst (main_loop cfg SM ref_file hyp_file s) = Inr ()"
    then obtain s' where run: "for_each (zip ref_file hyp_file) (process_pair cfg SM) s = (Inr (), s')"
      by (cases "main_loop cfg SM ref_file hyp_file s") (simp add: main_loop_def)
    have mem: "(ref_file ! k, hyp_file ! k) \<in> set (zip ref_file hyp_file)"
      using assms(1,2) by (auto simp: set_zip)
    from for_each_Inr_each [OF run mem]
    obtain s1 s2 where "process_pair cfg SM (ref_file ! k, hyp_file ! k) s1 = (Inr (), s2)"
      by auto
    then show False using pair [of s1] by simp
  qed
  assume pre: "main_loop cfg SM (take k ref_file) (take k hyp_file) s = (Inr (), sk)"
  obtain s' where step: "process_pair cfg SM (ref_file ! k, hyp_file ! k) sk = (Inl ZeroDivisionError, s')"
    using pair [of sk] by (cases "process_pair cfg SM (ref_file ! k, hyp_file ! k) sk") simp
  from main_loop_raises_at [OF assms(1,2) pre step]
  have loop: "main_loop cfg SM ref_file hyp_file s = (Inl ZeroDivisionError, s')" .
  then show "fst (main_loop cfg SM ref_file hyp_file s) = Inl ZeroDivisionError" by simp
  from main_loop_raises [OF loop]
  show "fst (main cfg SM ref_file hyp_file s) = Inl ZeroDivisionError" by simp
qed

theorem empty_reference_divides_by_zero_witness:
  "split ''\<newline>'' = [] \<and> split ''hello\<newline>'' = [''hello'']
   \<and> fst (main \<lparr>print_instances = True, files_have_ids = False, confusions = True\<rparr>
      (\<lambda>a b. \<lparr>get_opcodes = [(''insert'', 0, 0, 0, 1)], matches = 0, get_matching_blocks = []\<rparr>)
      [''\<newline>''] [''hello\<newline>''] initial_state) = Inl ZeroDivisionError"
proof -
  let ?cfg = "\<lparr>print_instances = True, files_have_ids = False, confusions = True\<rparr>"
  let ?SM = "\<lambda>(a::string list) (b::string list).
      \<lparr>get_opcodes = [(''insert'', 0, 0, 0, 1)], matches = 0, get_matching_blocks = []\<rparr>"
  have t1: "split ''\<newline>'' = []" and t2: "split ''hello\<newline>'' = [''hello'']"
    by (simp_all add: split_def isspace_def)
  have k: "0 < length [''\<newline>'']" "0 < length [''hello\<newline>'']" by simp_all
  have ids: "split_off_ids (files_have_ids ?cfg) (split ([''\<newline>''] ! 0)) (split ([''hello\<newline>''] ! 0))
      = Inr (None, [], [''hello''])"
    by (simp add: split_off_ids_def t1 t2)
  have mc: "get_match_count (?SM [] [''hello'']) = Inr 0"
    by (simp add: get_match_count_def reduce_def)
  have v: "list_all (valid_opcode [] [''hello'']) (get_opcodes (?SM [] [''hello'']))"
    by (simp add: valid_opcode_def)
  have pre: "main_loop ?cfg ?SM (take 0 [''\<newline>'']) (take 0 [''hello\<newline>'']) initial_state
      = (Inr (), initial_state)"
    by (simp add: main_loop_def)
  from empty_reference_divides_by_zero [where SM = ?SM and hyp = "[''hello'']"
      and t = initial_state and s = initial_state and sk = initial_state, OF k ids mc v]
    pre t1 t2
  show ?thesis by simp
qed

section \<open>The twenty buckets\<close>

lemma long_reference_never_completes:
  assumes "length (wer_bins s) = 20" and "20 \<le> length (tokens_of cfg ref_line)"
  shows "fst (process_pair cfg SM (ref_line, hyp_line) s) \<noteq> Inr ()"
proof
  assume "fst (process_pair cfg SM (ref_line, hyp_line) s) = Inr ()"
  then obtain s' where "process_pair cfg SM (ref_line, hyp_line) s = (Inr (), s')"
    by (cases "process_pair cfg SM (ref_line, hyp_line) s") simp
  from process_pair_totals(7) [OF this] assms show False by simp
qed

text \<open>
  Claim C7 does not hold of the code. \<open>wer_bins\<close> is a list of 20 buckets, and line 101
  subscripts it with the reference length: a reference of 20 tokens or more raises
  \<open>IndexError\<close>. Here a reference of 20 tokens is compared with an identical
  hypothesis, and the run ends with \<open>IndexError\<close>.
\<close>

theorem twenty_token_reference_raises:
  "split ''a b c d e f g h i j k l m n o p q r s t'' =
     [''a'', ''b'', ''c'', ''d'', ''e'', ''f'', ''g'', ''h'', ''i'', ''j'',
      ''k'', ''l'', ''m'', ''n'', ''o'', ''p'', ''q'', ''r'', ''s'', ''t'']
   \<and> fst (main \<lparr>print_instances = False, files_have_ids = False, confusions = False\<rparr>
      (\<lambda>a b. \<lparr>get_opcodes = [(''equal'', 0, 20, 0, 20)], matches = 20,
               get_matching_blocks = [(0, 0, 20)]\<rparr>)
      [''a b c d e f g h i j k l m n o p q r s t'']
      [''a b c d e f g h i j k l m n o p q r s t''] initial_state) = Inl IndexError"
proof -
  have t: "split ''a b c d e f g h i j k l m n o p q r s t'' =
     [''a'', ''b'', ''c'', ''d'', ''e'', ''f'', ''g'', ''h'', ''i'', ''j'',
      ''k'', ''l'', ''m'', ''n'', ''o'', ''p'', ''q'', ''r'', ''s'', ''t'']"
    by (simp add: split_def isspace_def)
  show ?thesis
    by (simp add: t main_def main_loop_def process_pair_def prog_defs Let_def split_off_ids_def
        get_match_count_def get_error_count_def error_codes_def reduce_def true_div_def
        py_index_def initial_state_def)
qed

section \<open>The two match counts\<close>

lemma sum_spec_blocks:
  "sum_list (map (\<lambda>(i, j, n). n) (spec_matching_blocks opcodes)) = spec_matches opcodes"
  unfolding spec_matching_blocks_def spec_matches_def
  by (induction opcodes) auto

text \<open>
  Claim C2. \<open>get_match_count\<close> returns \<open>matches()\<close> when it equals the sum of the
  lengths of the matching blocks, and raises \<open>AssertionError\<close> otherwise. For a matcher
  as the specification describes it, built on any alignment of any two token sequences,
  the two counts are equal and the assertion passes.
\<close>

theorem match_counts_agree:
  "get_match_count sm =
     (if matches sm = (\<Sum>(i, j, n) \<leftarrow> get_matching_blocks sm. n)
      then Inr (matches sm) else Inl AssertionError)
   \<and> get_match_count (spec_SequenceMatcher align ref hyp) = Inr (spec_matches (align ref hyp))"
  by (simp add: get_match_count_def reduce_plus spec_SequenceMatcher_def sum_spec_blocks)

end
